theory Spec2Isabelle
  imports Complex_Main
begin

section \<open>JavaScript numbers\<close>

text \<open>
  A JavaScript number is an IEEE 754 binary64 value. The finite ones are real numbers,
  and the sum of two of them is the real sum rounded to the nearest binary64 value, ties
  to the even significand. \<open>binade n x\<close> is the exponent \<open>e\<close> with
  \<open>2^e <= x < 2^(e+1)\<close> of a positive \<open>x\<close>, found in at most \<open>n\<close> halvings or
  doublings; 1075 of them reach every finite binary64 magnitude. \<open>ulp x\<close> is the
  spacing of the binary64 values around \<open>x\<close>: 52 binary places below the exponent,
  which does not go below \<open>-1022\<close> (the subnormal range). \<open>toDouble x\<close> is the
  binary64 value nearest to \<open>x\<close>; a result beyond the largest finite value, which
  IEEE rounds to infinity, is not represented.
\<close>

fun binade :: "nat \<Rightarrow> real \<Rightarrow> int" where
  "binade 0 x = 0"
| "binade (Suc n) x =
     (if 2 \<le> x then binade n (x / 2) + 1
      else if x < 1 then binade n (x * 2) - 1
      else 0)"

definition roundTiesToEven :: "real \<Rightarrow> int" where
  "roundTiesToEven q =
     (let f = \<lfloor>q\<rfloor>; d = q - of_int f
      in if d < 1 / 2 then f
         else if 1 / 2 < d then f + 1
         else if even f then f else f + 1)"

definition ulp :: "real \<Rightarrow> real" where
  "ulp x =
     (let e = max (binade 1075 \<bar>x\<bar>) (- 1022) - 52
      in if 0 \<le> e then 2 ^ nat e else 1 / 2 ^ nat (- e))"

definition toDouble :: "real \<Rightarrow> real" where
  "toDouble x =
     (if x = 0 then 0
      else sgn x * (of_int (roundTiesToEven (\<bar>x\<bar> / ulp x)) * ulp x))"

section \<open>Session state (GameConfig.ts)\<close>

text \<open>
  The interface \<open>GameState\<close>. JavaScript numbers that only ever hold integers
  (\<open>lives\<close>, \<open>score\<close>, \<open>gamesCompleted\<close>) are integers here. \<open>speed\<close> holds a
  binary64 value, as a real number; the program adds \<open>0.2\<close> to it, which is the
  binary64 value \<open>toDouble (2 / 10)\<close>, and the sum is rounded by \<open>toDouble\<close>. The
  value of \<open>Math.random()\<close> is a real number. Optional fields are options.
\<close>

record GameState =
  lives :: int
  score :: int
  currentGame :: int
  speed :: real
  gamesCompleted :: int
  debugMode :: "bool option"
  previousGameKey :: "string option"
  recentGames :: "string list option"

definition INITIAL_GAME_STATE :: GameState where
  "INITIAL_GAME_STATE =
     \<lparr>lives = 4, score = 0, currentGame = 0, speed = 1, gamesCompleted = 0,
      debugMode = Some False, previousGameKey = None, recentGames = Some []\<rparr>"

section \<open>The round controller (BaseMicrogame)\<close>

datatype feedback = NICE | MISS

datatype scene = TitleScene | TransitionScene | MicrogameScene string

text \<open>
  The fields of \<open>BaseMicrogame\<close> that its control flow reads and writes. \<open>gameTimer\<close>
  is true while the repeating timer event is registered with the clock. Three fields
  record effects: \<open>cleanupCalls\<close> counts the calls of \<open>cleanupControls()\<close>,
  \<open>timerRemovals\<close> the calls of \<open>gameTimer.remove()\<close>, and \<open>shown\<close> lists the
  feedback texts shown by \<open>showSuccessFeedback\<close> and \<open>showFailureFeedback\<close>.
\<close>

record BaseMicrogame =
  gameState :: GameState
  timeRemaining :: int
  hasWon :: bool
  hasFailed :: bool
  gameEnded :: bool
  gameReady :: bool
  gameTimer :: bool
  cleanupCalls :: nat
  timerRemovals :: nat
  shown :: "feedback list"

text \<open>\<open>init(data)\<close>: the second argument is the value of \<open>getGameDuration()\<close>.\<close>

definition init :: "GameState \<Rightarrow> int \<Rightarrow> BaseMicrogame" where
  "init gs duration =
     \<lparr>gameState = gs, timeRemaining = duration, hasWon = False, hasFailed = False,
      gameEnded = False, gameReady = False, gameTimer = False,
      cleanupCalls = 0, timerRemovals = 0, shown = []\<rparr>"

text \<open>The delayed callback of \<open>create()\<close>: \<open>startTimer()\<close> registers the timer, then
  \<open>gameReady = true\<close>.\<close>

definition create :: "BaseMicrogame \<Rightarrow> BaseMicrogame" where
  "create m = m\<lparr>gameTimer := True, gameReady := True\<rparr>"

definition setWinState :: "BaseMicrogame \<Rightarrow> BaseMicrogame" where
  "setWinState m =
     (if \<not> gameEnded m \<and> \<not> hasWon m
      then m\<lparr>hasWon := True, shown := shown m @ [NICE]\<rparr>
      else m)"

definition setFailState :: "BaseMicrogame \<Rightarrow> BaseMicrogame" where
  "setFailState m =
     (if \<not> gameEnded m \<and> \<not> hasFailed m
      then m\<lparr>hasFailed := True, shown := shown m @ [MISS]\<rparr>
      else m)"

text \<open>The block \<open>// Update game state\<close> of \<open>endGame()\<close>.\<close>

definition updateGameState :: "bool \<Rightarrow> GameState \<Rightarrow> GameState" where
  "updateGameState won gs =
     (if won then
        (let gs1 = gs\<lparr>score := score gs + 100, gamesCompleted := gamesCompleted gs + 1\<rparr>
         in if gamesCompleted gs1 > 0 \<and> gamesCompleted gs1 mod 5 = 0
            then gs1\<lparr>speed := min (toDouble (speed gs1 + toDouble (2 / 10))) 3\<rparr>
            else gs1)
      else gs\<lparr>lives := lives gs - 1\<rparr>)"

definition endGame :: "BaseMicrogame \<Rightarrow> BaseMicrogame" where
  "endGame m =
     (if gameEnded m then m
      else
        (let won = hasWon m \<and> \<not> hasFailed m
         in m\<lparr>gameEnded := True, gameTimer := False,
               timerRemovals := timerRemovals m + 1,
               cleanupCalls := cleanupCalls m + 1,
               gameState := updateGameState won (gameState m)\<rparr>))"

text \<open>The scene started by the delayed call at the end of \<open>endGame()\<close>.\<close>

definition nextScene :: "GameState \<Rightarrow> scene" where
  "nextScene gs =
     (if debugMode gs = Some True then TitleScene
      else if lives gs \<le> 0 then TitleScene
      else TransitionScene)"

text \<open>The callback of the repeating 50 ms timer of \<open>startTimer()\<close>.\<close>

definition timerCallback :: "BaseMicrogame \<Rightarrow> BaseMicrogame" where
  "timerCallback m =
     (let m1 = m\<lparr>timeRemaining := timeRemaining m - 50\<rparr>
      in if timeRemaining m1 \<le> 0 then endGame m1 else m1)"

text \<open>
  What can happen to a running round: the round's own logic calls \<open>setWinState()\<close> or
  \<open>setFailState()\<close>, or the clock fires the timer, which it does only while the timer
  is registered.
\<close>

datatype event = CallWin | CallFail | TimerFires

fun fire :: "event \<Rightarrow> BaseMicrogame \<Rightarrow> BaseMicrogame" where
  "fire CallWin m = setWinState m"
| "fire CallFail m = setFailState m"
| "fire TimerFires m = (if gameTimer m then timerCallback m else m)"

definition run :: "event list \<Rightarrow> BaseMicrogame \<Rightarrow> BaseMicrogame" where
  "run evs m = foldl (\<lambda>s e. fire e s) m evs"

section \<open>Sessions\<close>

text \<open>
  A round at the moment its countdown expires, with the two flags as the round's logic
  left them.
\<close>

definition atExpiry :: "GameState \<Rightarrow> bool \<Rightarrow> bool \<Rightarrow> BaseMicrogame" where
  "atExpiry gs w f = (create (init gs 0))\<lparr>hasWon := w, hasFailed := f\<rparr>"

text \<open>
  A session is a sequence of rounds, each given by its two flags at expiry. After each
  round \<open>endGame()\<close> updates the state and starts either the title scene, which ends
  the session, or the transition scene, which leads to the next round.
\<close>

fun session :: "GameState \<Rightarrow> (bool \<times> bool) list \<Rightarrow> scene \<times> GameState" where
  "session gs [] = (TransitionScene, gs)"
| "session gs ((w, f) # rs) =
     (let gs' = gameState (endGame (atExpiry gs w f))
      in if nextScene gs' = TitleScene then (TitleScene, gs') else session gs' rs)"

text \<open>
  The value of \<open>speed\<close> after \<open>k\<close> increases from 1: the assignment
  \<open>speed = Math.min(speed + 0.2, 3)\<close> of \<open>endGame()\<close>, \<open>k\<close> times.
\<close>

fun speedAfter :: "nat \<Rightarrow> real" where
  "speedAfter 0 = 1"
| "speedAfter (Suc k) = min (toDouble (speedAfter k + toDouble (2 / 10))) 3"

section \<open>The round selector (TransitionScene)\<close>

record MicrogameInfo =
  key :: string
  name :: string
  prompt :: string
  description :: string
  controls :: string

text \<open>A catalog entry with the given key; the presentation strings play no part in
  the selection.\<close>

definition game :: "string \<Rightarrow> MicrogameInfo" where
  "game k = \<lparr>key = k, name = k, prompt = [], description = [], controls = ''Mouse''\<rparr>"

text \<open>The catalog \<open>MICROGAMES\<close> is imported from the registry; it is a parameter of
  every function below.\<close>

definition HISTORY_SIZE :: "MicrogameInfo list \<Rightarrow> nat" where
  "HISTORY_SIZE MICROGAMES = min 3 (length MICROGAMES div 2)"

text \<open>\<open>Array.prototype.indexOf\<close>: the first index of the key, or \<open>-1\<close>.\<close>

fun indexOf :: "string list \<Rightarrow> string \<Rightarrow> int" where
  "indexOf [] k = - 1"
| "indexOf (x # xs) k =
     (if x = k then 0
      else (let i = indexOf xs k in if i = - 1 then - 1 else i + 1))"

text \<open>
  \<open>Phaser.Utils.Array.GetRandom\<close>: the element at index \<open>floor(Math.random() * length)\<close>,
  or \<open>null\<close> when there is none. The draw \<open>u\<close> is the value of \<open>Math.random()\<close>.
\<close>

definition GetRandom :: "'a list \<Rightarrow> real \<Rightarrow> 'a option" where
  "GetRandom array u =
     (let randomIndex = \<lfloor>u * real (length array)\<rfloor>
      in if 0 \<le> randomIndex \<and> randomIndex < int (length array)
         then Some (array ! nat randomIndex) else None)"

definition gameWeights :: "MicrogameInfo list \<Rightarrow> string list \<Rightarrow> (MicrogameInfo \<times> int) list" where
  "gameWeights MICROGAMES recent =
     map (\<lambda>g.
       (let recentIndex = indexOf recent (key g)
        in if recentIndex = - 1 then (g, 100)
           else (let age = int (length recent) - recentIndex in (g, age * 20))))
     MICROGAMES"

definition totalWeight :: "(MicrogameInfo \<times> int) list \<Rightarrow> int" where
  "totalWeight gws = foldl (\<lambda>sum gw. sum + snd gw) 0 gws"

text \<open>The loop \<open>for (const gameWeight of gameWeights)\<close>: \<open>None\<close> when it ends with
  \<open>nextGame\<close> unassigned.\<close>

fun pick :: "real \<Rightarrow> (MicrogameInfo \<times> int) list \<Rightarrow> MicrogameInfo option" where
  "pick random [] = None"
| "pick random (gameWeight # rest) =
     (let random' = random - of_int (snd gameWeight)
      in if random' \<le> 0 then Some (fst gameWeight) else pick random' rest)"

datatype error = TypeError

text \<open>Which branch of \<open>showNextGameControls()\<close> assigned \<open>nextGame\<close>.\<close>

datatype path = SmallCatalog | Weighted | Fallback

datatype selection = NoGames | Selected path MicrogameInfo

definition truthy :: "string option \<Rightarrow> bool" where
  "truthy s = (case s of None \<Rightarrow> False | Some k \<Rightarrow> k \<noteq> [])"

definition recentOf :: "GameState \<Rightarrow> string list" where
  "recentOf gs = (case recentGames gs of None \<Rightarrow> [] | Some r \<Rightarrow> r)"

text \<open>
  The selection part of \<open>showNextGameControls()\<close>. \<open>u\<close> is the first value of
  \<open>Math.random()\<close> the call draws and \<open>u2\<close> the second, which only the fallback after
  the loop draws. Reading \<open>nextGame.key\<close> when \<open>GetRandom\<close> returned \<open>null\<close> throws.
\<close>

definition showNextGameControls ::
  "MicrogameInfo list \<Rightarrow> GameState \<Rightarrow> real \<Rightarrow> real \<Rightarrow> error + (selection \<times> GameState)" where
  "showNextGameControls MICROGAMES gs0 u u2 =
     (if length MICROGAMES > 0 then
        (let gs = gs0\<lparr>recentGames := Some (recentOf gs0)\<rparr>
         in if length MICROGAMES \<le> HISTORY_SIZE MICROGAMES + 1 then
              (let availableGames =
                     (if truthy (previousGameKey gs) \<and> length MICROGAMES > 1
                      then filter (\<lambda>g. Some (key g) \<noteq> previousGameKey gs) MICROGAMES
                      else MICROGAMES)
               in case GetRandom availableGames u of
                    None \<Rightarrow> Inl TypeError
                  | Some g \<Rightarrow> Inr (Selected SmallCatalog g, gs))
            else
              (let gws = gameWeights MICROGAMES (recentOf gs);
                   random = u * of_int (totalWeight gws)
               in case pick random gws of
                    Some g \<Rightarrow> Inr (Selected Weighted g, gs)
                  | None \<Rightarrow>
                      (case GetRandom MICROGAMES u2 of
                         None \<Rightarrow> Inl TypeError
                       | Some g \<Rightarrow> Inr (Selected Fallback g, gs))))
      else Inr (NoGames, gs0))"

text \<open>
  The completion callback of \<open>transitionToGame()\<close>. \<open>sceneExists\<close> stands for
  \<open>this.scene.get\<close>; \<open>push\<close> appends at the end and \<open>shift\<close> removes the first entry.
\<close>

definition transitionToGame ::
  "MicrogameInfo list \<Rightarrow> (string \<Rightarrow> bool) \<Rightarrow> string \<Rightarrow> GameState \<Rightarrow> scene \<times> GameState" where
  "transitionToGame MICROGAMES sceneExists nextGameKey gs =
     (if nextGameKey \<noteq> [] \<and> sceneExists nextGameKey then
        (let pushed = recentOf gs @ [nextGameKey];
             kept = (if length pushed > HISTORY_SIZE MICROGAMES then tl pushed else pushed)
         in (MicrogameScene nextGameKey,
             gs\<lparr>recentGames := Some kept, previousGameKey := Some nextGameKey\<rparr>))
      else (TitleScene, gs))"

text \<open>The state after a sequence of transitions to the given round keys.\<close>

definition transitions ::
  "MicrogameInfo list \<Rightarrow> (string \<Rightarrow> bool) \<Rightarrow> GameState \<Rightarrow> string list \<Rightarrow> GameState" where
  "transitions MICROGAMES sceneExists gs ks =
     foldl (\<lambda>s k. snd (transitionToGame MICROGAMES sceneExists k s)) gs ks"

section \<open>Lemmas on the round controller\<close>

lemma run_Nil [simp]: "run [] m = m"
  by (simp add: run_def)

lemma run_snoc [simp]: "run (evs @ [e]) m = fire e (run evs m)"
  by (simp add: run_def)

lemma run_Cons [simp]: "run (e # evs) m = run evs (fire e m)"
  by (simp add: run_def)

lemma endGame_ended [simp]: "gameEnded (endGame m)"
  by (simp add: endGame_def Let_def)

lemma endGame_idem: "endGame (endGame m) = endGame m"
  by (simp add: endGame_def Let_def)

lemma fire_hasWon: "hasWon m \<Longrightarrow> hasWon (fire e m)"
  by (cases e) (simp_all add: setWinState_def setFailState_def timerCallback_def endGame_def Let_def)

lemma fire_hasFailed: "hasFailed m \<Longrightarrow> hasFailed (fire e m)"
  by (cases e) (simp_all add: setWinState_def setFailState_def timerCallback_def endGame_def Let_def)

lemma run_hasWon: "hasWon m \<Longrightarrow> hasWon (run evs m)"
  by (induction evs rule: rev_induct) (simp_all add: fire_hasWon)

lemma run_hasFailed: "hasFailed m \<Longrightarrow> hasFailed (run evs m)"
  by (induction evs rule: rev_induct) (simp_all add: fire_hasFailed)

lemma fire_inv:
  assumes "cleanupCalls m \<le> 1" "timerRemovals m = cleanupCalls m"
    "cleanupCalls m = 1 \<longleftrightarrow> gameEnded m" "gameEnded m \<longleftrightarrow> \<not> gameTimer m"
  shows "cleanupCalls (fire e m) \<le> 1 \<and> timerRemovals (fire e m) = cleanupCalls (fire e m)
    \<and> (cleanupCalls (fire e m) = 1 \<longleftrightarrow> gameEnded (fire e m))
    \<and> (gameEnded (fire e m) \<longleftrightarrow> \<not> gameTimer (fire e m))"
  using assms
  by (cases e) (auto simp: setWinState_def setFailState_def timerCallback_def endGame_def Let_def)

lemma run_inv:
  assumes "cleanupCalls m = 0" "timerRemovals m = 0" "\<not> gameEnded m" "gameTimer m"
  shows "cleanupCalls (run evs m) \<le> 1 \<and> timerRemovals (run evs m) = cleanupCalls (run evs m)
    \<and> (cleanupCalls (run evs m) = 1 \<longleftrightarrow> gameEnded (run evs m))
    \<and> (gameEnded (run evs m) \<longleftrightarrow> \<not> gameTimer (run evs m))"
proof (induction evs rule: rev_induct)
  case Nil
  then show ?case using assms by simp
next
  case (snoc e evs)
  then show ?case using fire_inv [of "run evs m" e] by simp
qed

lemma fire_time:
  assumes "\<not> gameEnded (fire e m)" "gameEnded m \<longleftrightarrow> \<not> gameTimer m"
  shows "\<not> gameEnded m \<and> timeRemaining (fire e m) = timeRemaining m - (if e = TimerFires then 50 else 0)
     \<and> (e = TimerFires \<longrightarrow> 0 < timeRemaining (fire e m))"
  using assms
  by (cases e) (auto simp: setWinState_def setFailState_def timerCallback_def endGame_def Let_def split: if_splits)

lemma run_time:
  assumes "cleanupCalls m = 0" "timerRemovals m = 0" "\<not> gameEnded m" "gameTimer m"
  shows "\<not> gameEnded (run evs m) \<Longrightarrow>
     timeRemaining (run evs m) = timeRemaining m - 50 * int (count_list evs TimerFires)
     \<and> (TimerFires \<in> set evs \<longrightarrow> 0 < timeRemaining (run evs m))"
proof (induction evs rule: rev_induct)
  case Nil
  then show ?case by simp
next
  case (snoc e evs)
  have inv: "gameEnded (run evs m) \<longleftrightarrow> \<not> gameTimer (run evs m)"
    using run_inv [OF assms, of evs] by blast
  from snoc.prems have ne: "\<not> gameEnded (fire e (run evs m))" by simp
  note ft = fire_time [OF ne inv]
  then have ih: "timeRemaining (run evs m) = timeRemaining m - 50 * int (count_list evs TimerFires)"
      "TimerFires \<in> set evs \<longrightarrow> 0 < timeRemaining (run evs m)"
    using snoc.IH by auto
  show ?case
  proof (cases "e = TimerFires")
    case True
    then show ?thesis using ft ih by simp
  next
    case False
    then show ?thesis using ft ih by auto
  qed
qed

section \<open>Lemmas on binary64 sums and the speed levels\<close>

lemma binade_numeral:
  "binade (numeral k) x =
     (if 2 \<le> x then binade (pred_numeral k) (x / 2) + 1
      else if x < 1 then binade (pred_numeral k) (x * 2) - 1
      else 0)"
  by (simp add: numeral_eq_Suc)

lemmas toDouble_eval = toDouble_def ulp_def roundTiesToEven_def Let_def binade_numeral

lemma toDouble_fifth: "toDouble (2 / 10) = 3602879701896397 / 18014398509481984"
  by (simp add: toDouble_eval)

lemma speedAfter_1: "speedAfter 1 = 5404319552844595 / 4503599627370496"
  by (simp add: toDouble_eval)

lemma toDouble_fifth': "toDouble (1 / 5) = 3602879701896397 / 18014398509481984"
  using toDouble_fifth by simp

lemma speedAfter_Suc_fifth:
  "speedAfter (Suc n) = min (toDouble (speedAfter n + 3602879701896397 / 18014398509481984)) 3"
  by (simp add: toDouble_fifth')

lemma speedAfter_2: "speedAfter 2 = 3152519739159347 / 2251799813685248"
proof -
  have "speedAfter 2 = speedAfter (Suc 1)" by (simp only: Suc_1)
  also have "\<dots> = min (toDouble (5404319552844595 / 4503599627370496 + 3602879701896397 / 18014398509481984)) 3"
    by (simp only: speedAfter_Suc_fifth speedAfter_1)
  also have "\<dots> = 3152519739159347 / 2251799813685248"
    by (simp add: toDouble_eval)
  finally show ?thesis .
qed

lemma speedAfter_3: "speedAfter 3 = 7205759403792793 / 4503599627370496"
proof -
  have "speedAfter 3 = speedAfter (Suc 2)" by (simp del: speedAfter.simps)
  also have "\<dots> = min (toDouble (3152519739159347 / 2251799813685248 + 3602879701896397 / 18014398509481984)) 3"
    by (simp only: speedAfter_Suc_fifth speedAfter_2)
  also have "\<dots> = 7205759403792793 / 4503599627370496"
    by (simp add: toDouble_eval)
  finally show ?thesis .
qed

lemma speedAfter_4: "speedAfter 4 = 2026619832316723 / 1125899906842624"
proof -
  have "speedAfter 4 = speedAfter (Suc 3)" by (simp del: speedAfter.simps)
  also have "\<dots> = min (toDouble (7205759403792793 / 4503599627370496 + 3602879701896397 / 18014398509481984)) 3"
    by (simp only: speedAfter_Suc_fifth speedAfter_3)
  also have "\<dots> = 2026619832316723 / 1125899906842624"
    by (simp add: toDouble_eval)
  finally show ?thesis .
qed

lemma speedAfter_5: "speedAfter 5 = 9007199254740991 / 4503599627370496"
proof -
  have "speedAfter 5 = speedAfter (Suc 4)" by (simp del: speedAfter.simps)
  also have "\<dots> = min (toDouble (2026619832316723 / 1125899906842624 + 3602879701896397 / 18014398509481984)) 3"
    by (simp only: speedAfter_Suc_fifth speedAfter_4)
  also have "\<dots> = 9007199254740991 / 4503599627370496"
    by (simp add: toDouble_eval)
  finally show ?thesis .
qed

lemma speedAfter_6: "speedAfter 6 = 4953959590107545 / 2251799813685248"
proof -
  have "speedAfter 6 = speedAfter (Suc 5)" by (simp del: speedAfter.simps)
  also have "\<dots> = min (toDouble (9007199254740991 / 4503599627370496 + 3602879701896397 / 18014398509481984)) 3"
    by (simp only: speedAfter_Suc_fifth speedAfter_5)
  also have "\<dots> = 4953959590107545 / 2251799813685248"
    by (simp add: toDouble_eval)
  finally show ?thesis .
qed

lemma speedAfter_7: "speedAfter 7 = 5404319552844595 / 2251799813685248"
proof -
  have "speedAfter 7 = speedAfter (Suc 6)" by (simp del: speedAfter.simps)
  also have "\<dots> = min (toDouble (4953959590107545 / 2251799813685248 + 3602879701896397 / 18014398509481984)) 3"
    by (simp only: speedAfter_Suc_fifth speedAfter_6)
  also have "\<dots> = 5404319552844595 / 2251799813685248"
    by (simp add: toDouble_eval)
  finally show ?thesis .
qed

lemma speedAfter_8: "speedAfter 8 = 5854679515581645 / 2251799813685248"
proof -
  have "speedAfter 8 = speedAfter (Suc 7)" by (simp del: speedAfter.simps)
  also have "\<dots> = min (toDouble (5404319552844595 / 2251799813685248 + 3602879701896397 / 18014398509481984)) 3"
    by (simp only: speedAfter_Suc_fifth speedAfter_7)
  also have "\<dots> = 5854679515581645 / 2251799813685248"
    by (simp add: toDouble_eval)
  finally show ?thesis .
qed

lemma speedAfter_9: "speedAfter 9 = 6305039478318695 / 2251799813685248"
proof -
  have "speedAfter 9 = speedAfter (Suc 8)" by (simp del: speedAfter.simps)
  also have "\<dots> = min (toDouble (5854679515581645 / 2251799813685248 + 3602879701896397 / 18014398509481984)) 3"
    by (simp only: speedAfter_Suc_fifth speedAfter_8)
  also have "\<dots> = 6305039478318695 / 2251799813685248"
    by (simp add: toDouble_eval)
  finally show ?thesis .
qed

lemma speedAfter_10: "speedAfter 10 = 3"
proof -
  have "speedAfter 10 = speedAfter (Suc 9)" by (simp del: speedAfter.simps)
  also have "\<dots> = min (toDouble (6305039478318695 / 2251799813685248 + 3602879701896397 / 18014398509481984)) 3"
    by (simp only: speedAfter_Suc_fifth speedAfter_9)
  also have "\<dots> = 3"
    by (simp add: toDouble_eval)
  finally show ?thesis .
qed

lemma capped_step: "min (toDouble (3 + 3602879701896397 / 18014398509481984)) 3 = 3"
  by (simp add: toDouble_eval)

lemma speedAfter_from_10: "10 \<le> k \<Longrightarrow> speedAfter k = 3"
proof (induction k rule: nat_induct_at_least)
  case base
  then show ?case by (rule speedAfter_10)
next
  case (Suc n)
  then show ?case by (simp only: speedAfter_Suc_fifth capped_step)
qed

lemma speedAfter_Suc_0: "speedAfter (Suc 0) = 5404319552844595 / 4503599627370496"
  using speedAfter_1 by (simp del: speedAfter.simps)

lemma speedAfter_Suc_Suc_0: "speedAfter (Suc (Suc 0)) = 3152519739159347 / 2251799813685248"
  using speedAfter_2 by (simp only: numeral_2_eq_2)

lemmas speedAfter_values = speedAfter_Suc_0 speedAfter_Suc_Suc_0
  speedAfter_1 speedAfter_2 speedAfter_3 speedAfter_4 speedAfter_5
  speedAfter_6 speedAfter_7 speedAfter_8 speedAfter_9 speedAfter_10

lemma speedAfter_props:
  "1 \<le> speedAfter k \<and> speedAfter k \<le> speedAfter (Suc k) \<and> speedAfter (Suc k) \<le> 3
   \<and> (speedAfter (Suc k) < 3 \<longrightarrow> \<bar>speedAfter (Suc k) - speedAfter k - 2 / 10\<bar> \<le> 1 / 2 ^ 52)
   \<and> \<bar>speedAfter k - min (1 + real k * (2 / 10)) 3\<bar> \<le> 1 / 2 ^ 51"
proof -
  have "k = 0 \<or> k = 1 \<or> k = 2 \<or> k = 3 \<or> k = 4 \<or> k = 5 \<or> k = 6 \<or> k = 7 \<or> k = 8 \<or> k = 9 \<or> 10 \<le> k"
    by arith
  then show ?thesis
  proof (elim disjE)
    assume "10 \<le> k"
    then have a: "speedAfter k = 3" and b: "speedAfter (Suc k) = 3"
      by (simp_all add: speedAfter_from_10 del: speedAfter.simps)
    have "3 \<le> 1 + real k * (2 / 10)" using \<open>10 \<le> k\<close> by simp
    then have "min (1 + real k * (2 / 10)) 3 = 3" by simp
    with a b show ?thesis by (simp del: speedAfter.simps)
  qed (simp_all add: speedAfter_values del: speedAfter.simps(2))
qed

section \<open>Lemmas on sessions\<close>

lemma round_state:
  "gameState (endGame (atExpiry gs w f)) = updateGameState (w \<and> \<not> f) gs"
  by (simp add: atExpiry_def create_def init_def endGame_def)

lemma update_lives:
  "lives (updateGameState won gs) = (if won then lives gs else lives gs - 1)"
  by (simp add: updateGameState_def Let_def)

lemma update_debugMode: "debugMode (updateGameState won gs) = debugMode gs"
  by (simp add: updateGameState_def Let_def)

lemma update_gamesCompleted:
  "gamesCompleted (updateGameState won gs) = (if won then gamesCompleted gs + 1 else gamesCompleted gs)"
  by (simp add: updateGameState_def Let_def)

lemma session_lives:
  "1 \<le> lives gs0 \<Longrightarrow> debugMode gs0 \<noteq> Some True \<Longrightarrow> session gs0 rs = (sc, gs) \<Longrightarrow>
     debugMode gs \<noteq> Some True \<and> (sc = TransitionScene \<and> 1 \<le> lives gs \<or> sc = TitleScene \<and> lives gs = 0)"
proof (induction rs arbitrary: gs0)
  case Nil
  then show ?case by auto
next
  case (Cons r rs)
  obtain w f where r: "r = (w, f)" by (cases r)
  let ?g = "updateGameState (w \<and> \<not> f) gs0"
  have d: "debugMode ?g \<noteq> Some True" using Cons.prems(2) by (simp add: update_debugMode)
  have l: "0 \<le> lives ?g" using Cons.prems(1) by (simp add: update_lives)
  show ?case
  proof (cases "lives ?g \<le> 0")
    case True
    then have "session gs0 (r # rs) = (TitleScene, ?g)"
      using d by (simp add: r round_state nextScene_def)
    with Cons.prems(3) d l True show ?thesis by auto
  next
    case False
    then have "session gs0 (r # rs) = session ?g rs"
      using d by (simp add: r round_state nextScene_def)
    with Cons.prems(3) have "session ?g rs = (sc, gs)" by simp
    from Cons.IH [OF _ d this] False show ?thesis by simp
  qed
qed

lemma speedAfter_nth:
  "speedAfter k =
     [1, 5404319552844595 / 4503599627370496, 3152519739159347 / 2251799813685248,
      7205759403792793 / 4503599627370496, 2026619832316723 / 1125899906842624,
      9007199254740991 / 4503599627370496, 4953959590107545 / 2251799813685248,
      5404319552844595 / 2251799813685248, 5854679515581645 / 2251799813685248,
      6305039478318695 / 2251799813685248, 3] ! min k 10"
proof -
  have "k = 0 \<or> k = 1 \<or> k = 2 \<or> k = 3 \<or> k = 4 \<or> k = 5 \<or> k = 6 \<or> k = 7 \<or> k = 8 \<or> k = 9 \<or> 10 \<le> k"
    by arith
  then show ?thesis
  proof (elim disjE)
    assume "10 \<le> k"
    then have "speedAfter k = 3" and "min k 10 = 10"
      by (simp_all add: speedAfter_from_10 del: speedAfter.simps)
    then show ?thesis by (simp del: speedAfter.simps)
  qed (simp_all add: speedAfter_values del: speedAfter.simps(2))
qed

lemma speedAfter_level:
  "speedAfter k \<in>
     set [1, 5404319552844595 / 4503599627370496, 3152519739159347 / 2251799813685248,
      7205759403792793 / 4503599627370496, 2026619832316723 / 1125899906842624,
      9007199254740991 / 4503599627370496, 4953959590107545 / 2251799813685248,
      5404319552844595 / 2251799813685248, 5854679515581645 / 2251799813685248,
      6305039478318695 / 2251799813685248, 3]"
  unfolding speedAfter_nth [of k] by (rule nth_mem) simp

lemma update_speed:
  "speed (updateGameState won gs) =
     (if won \<and> gamesCompleted gs + 1 > 0 \<and> (gamesCompleted gs + 1) mod 5 = 0
      then min (toDouble (speed gs + toDouble (2 / 10))) 3 else speed gs)"
  by (simp add: updateGameState_def Let_def)

lemma update_speedAfter:
  "speed gs = speedAfter k \<Longrightarrow>
     speed (updateGameState won gs) =
       speedAfter (if won \<and> gamesCompleted gs + 1 > 0 \<and> (gamesCompleted gs + 1) mod 5 = 0
                   then Suc k else k)"
  by (simp add: update_speed)

lemma session_speedAfter:
  "speed gs0 = speedAfter k0 \<Longrightarrow> session gs0 rs = (sc, gs) \<Longrightarrow> \<exists>k. speed gs = speedAfter k"
proof (induction rs arbitrary: gs0 k0)
  case Nil
  then show ?case by auto
next
  case (Cons r rs)
  obtain w f where r: "r = (w, f)" by (cases r)
  let ?g = "updateGameState (w \<and> \<not> f) gs0"
  from update_speedAfter [OF Cons.prems(1)] obtain k1 where sp: "speed ?g = speedAfter k1"
    by blast
  show ?case
  proof (cases "nextScene ?g = TitleScene")
    case True
    then have "session gs0 (r # rs) = (TitleScene, ?g)"
      by (simp add: r round_state)
    with Cons.prems(2) sp show ?thesis by auto
  next
    case False
    then have "session gs0 (r # rs) = session ?g rs"
      by (simp add: r round_state)
    with Cons.prems(2) have "session ?g rs = (sc, gs)" by simp
    from Cons.IH [OF sp this] show ?thesis .
  qed
qed

lemma session_speed_closed:
  "speed gs0 = speedAfter (nat (gamesCompleted gs0 div 5)) \<Longrightarrow> 0 \<le> gamesCompleted gs0 \<Longrightarrow>
   session gs0 rs = (sc, gs) \<Longrightarrow>
     speed gs = speedAfter (nat (gamesCompleted gs div 5)) \<and> 0 \<le> gamesCompleted gs"
proof (induction rs arbitrary: gs0)
  case Nil
  then show ?case by auto
next
  case (Cons r rs)
  obtain w f where r: "r = (w, f)" by (cases r)
  let ?g = "updateGameState (w \<and> \<not> f) gs0"
  have g0: "0 \<le> gamesCompleted ?g" using Cons.prems(2) by (simp add: update_gamesCompleted)
  have sp: "speed ?g = speedAfter (nat (gamesCompleted ?g div 5))"
  proof (cases "w \<and> \<not> f")
    case False
    then show ?thesis using Cons.prems(1) by (auto simp: update_speed update_gamesCompleted)
  next
    case True
    show ?thesis
    proof (cases "(gamesCompleted gs0 + 1) mod 5 = 0")
      case True
      then have "(gamesCompleted gs0 + 1) div 5 = gamesCompleted gs0 div 5 + 1" by presburger
      moreover have "0 \<le> gamesCompleted gs0 div 5" using Cons.prems(2) by simp
      ultimately have "nat ((gamesCompleted gs0 + 1) div 5) = Suc (nat (gamesCompleted gs0 div 5))"
        by simp
      then show ?thesis using \<open>w \<and> \<not> f\<close> True Cons.prems(2)
          update_speedAfter [OF Cons.prems(1), of "w \<and> \<not> f"]
        by (simp add: update_gamesCompleted del: speedAfter.simps)
    next
      case False
      then have "(gamesCompleted gs0 + 1) div 5 = gamesCompleted gs0 div 5" by presburger
      then show ?thesis using \<open>w \<and> \<not> f\<close> False Cons.prems(2)
          update_speedAfter [OF Cons.prems(1), of "w \<and> \<not> f"]
        by (simp add: update_gamesCompleted del: speedAfter.simps)
    qed
  qed
  show ?case
  proof (cases "nextScene ?g = TitleScene")
    case True
    then have "session gs0 (r # rs) = (TitleScene, ?g)"
      by (simp add: r round_state)
    with Cons.prems(3) sp g0 show ?thesis by auto
  next
    case False
    then have "session gs0 (r # rs) = session ?g rs"
      by (simp add: r round_state)
    with Cons.prems(3) have "session ?g rs = (sc, gs)" by simp
    from Cons.IH [OF sp g0 this] show ?thesis by simp
  qed
qed

text \<open>
  A round that has ended left the state that \<open>endGame\<close> computes from the flags at
  expiry, and the transition scene between two rounds writes only \<open>previousGameKey\<close>
  and \<open>recentGames\<close>: this is why a session is determined, as far as \<open>lives\<close>,
  \<open>score\<close>, \<open>speed\<close> and \<open>gamesCompleted\<close> go, by the flags of its rounds.
\<close>

lemma fire_resolution:
  assumes "(\<not> gameEnded m \<and> gameState m = gs) \<or> (gameEnded m \<and> (\<exists>won. gameState m = updateGameState won gs))"
  shows "(\<not> gameEnded (fire e m) \<and> gameState (fire e m) = gs)
     \<or> (gameEnded (fire e m) \<and> (\<exists>won. gameState (fire e m) = updateGameState won gs))"
  using assms
  by (cases e) (auto simp: setWinState_def setFailState_def timerCallback_def endGame_def Let_def)

lemma run_resolution:
  "(\<not> gameEnded (run evs (create (init gs d))) \<and> gameState (run evs (create (init gs d))) = gs)
     \<or> (gameEnded (run evs (create (init gs d)))
         \<and> (\<exists>won. gameState (run evs (create (init gs d))) = updateGameState won gs))"
proof (induction evs rule: rev_induct)
  case Nil
  then show ?case by (simp add: create_def init_def)
next
  case (snoc e evs)
  then show ?case using fire_resolution [of "run evs (create (init gs d))" gs e] by simp
qed

lemma round_ends_as_atExpiry:
  assumes "gameEnded (run evs (create (init gs d)))"
  shows "\<exists>w f. gameState (run evs (create (init gs d))) = gameState (endGame (atExpiry gs w f))"
proof -
  from run_resolution [of evs gs d] assms obtain won where
    "gameState (run evs (create (init gs d))) = updateGameState won gs" by blast
  then have "gameState (run evs (create (init gs d))) = gameState (endGame (atExpiry gs won False))"
    by (simp add: round_state)
  then show ?thesis by blast
qed

lemma transitionToGame_keeps:
  "lives (snd (transitionToGame MICROGAMES sceneExists k gs)) = lives gs
   \<and> score (snd (transitionToGame MICROGAMES sceneExists k gs)) = score gs
   \<and> speed (snd (transitionToGame MICROGAMES sceneExists k gs)) = speed gs
   \<and> gamesCompleted (snd (transitionToGame MICROGAMES sceneExists k gs)) = gamesCompleted gs
   \<and> debugMode (snd (transitionToGame MICROGAMES sceneExists k gs)) = debugMode gs"
  by (simp add: transitionToGame_def Let_def)

lemma showNextGameControls_keeps:
  "showNextGameControls MICROGAMES gs u u2 = Inr (sel, gs') \<Longrightarrow>
     lives gs' = lives gs \<and> score gs' = score gs \<and> speed gs' = speed gs
     \<and> gamesCompleted gs' = gamesCompleted gs \<and> debugMode gs' = debugMode gs
     \<and> previousGameKey gs' = previousGameKey gs \<and> recentOf gs' = recentOf gs"
  by (auto simp: showNextGameControls_def Let_def recentOf_def split: if_splits option.splits)

section \<open>Lemmas on the round selector\<close>

lemma indexOf_range: "indexOf xs k = - 1 \<or> (0 \<le> indexOf xs k \<and> indexOf xs k < int (length xs))"
  by (induction xs) (auto simp: Let_def)

lemma indexOf_absent: "indexOf xs k = - 1 \<longleftrightarrow> k \<notin> set xs"
proof (induction xs)
  case Nil
  then show ?case by simp
next
  case (Cons x xs)
  then show ?case using indexOf_range [of xs k] by (auto simp: Let_def)
qed


lemma totalWeight_sum: "totalWeight gws = sum_list (map snd gws)"
proof -
  have "foldl (\<lambda>sum gw. sum + snd gw) a gws = a + sum_list (map snd gws)" for a
    by (induction gws arbitrary: a) simp_all
  then show ?thesis by (simp add: totalWeight_def)
qed

lemma weight_ge_20: "(g, w) \<in> set (gameWeights MICROGAMES recent) \<Longrightarrow> 20 \<le> w \<and> w \<le> 100 \<or> 20 \<le> w \<and> w \<le> 20 * int (length recent)"
  using indexOf_range [of recent "key g"]
  by (auto simp: gameWeights_def Let_def split: if_splits)

lemma weights_ge_20: "(g, w) \<in> set (gameWeights MICROGAMES recent) \<Longrightarrow> 20 \<le> w"
  using weight_ge_20 by blast

lemma sum_weights_lower: "(\<And>g w. (g, w) \<in> set gws \<Longrightarrow> (20::int) \<le> w) \<Longrightarrow> 20 * int (length gws) \<le> sum_list (map snd gws)"
proof (induction gws)
  case Nil
  then show ?case by simp
next
  case (Cons a gws)
  obtain g w where a: "a = (g, w)" by (cases a)
  have "20 \<le> w" using Cons.prems [of g w] by (simp add: a)
  moreover have "20 * int (length gws) \<le> sum_list (map snd gws)"
    by (rule Cons.IH) (use Cons.prems in auto)
  ultimately show ?case by (simp add: a)
qed

lemma pick_Some:
  "gws \<noteq> [] \<Longrightarrow> random \<le> of_int (sum_list (map snd gws)) \<Longrightarrow> \<exists>g. pick random gws = Some g"
proof (induction gws arbitrary: random)
  case Nil
  then show ?case by simp
next
  case (Cons a gws)
  show ?case
  proof (cases "random - of_int (snd a) \<le> 0")
    case True
    then show ?thesis by simp
  next
    case False
    with Cons.prems(2) have le: "random - of_int (snd a) \<le> of_int (sum_list (map snd gws))"
      by simp
    with False have "gws \<noteq> []" by auto
    from Cons.IH [OF this le] False show ?thesis by simp
  qed
qed


lemma length_gameWeights: "length (gameWeights MICROGAMES recent) = length MICROGAMES"
  by (simp add: gameWeights_def)


lemma GetRandom_in_range:
  assumes "xs \<noteq> []" and "0 \<le> u" and "u < 1"
  shows "GetRandom xs u = Some (xs ! nat \<lfloor>u * real (length xs)\<rfloor>)
     \<and> nat \<lfloor>u * real (length xs)\<rfloor> < length xs"
proof -
  have n: "0 < real (length xs)" using assms(1) by simp
  have "0 \<le> u * real (length xs)" using assms(2) by simp
  then have lo: "0 \<le> \<lfloor>u * real (length xs)\<rfloor>" by simp
  have "u * real (length xs) < real (length xs)" using assms(3) n by simp
  then have hi: "\<lfloor>u * real (length xs)\<rfloor> < int (length xs)"
    by (simp add: floor_less_iff)
  show ?thesis using lo hi by (simp add: GetRandom_def Let_def nat_less_iff)
qed

lemma GetRandom_Nil: "GetRandom [] u = None"
  by (simp add: GetRandom_def)

lemma recentOf_init [simp]: "recentOf (gs\<lparr>recentGames := Some (recentOf gs)\<rparr>) = recentOf gs"
  by (simp add: recentOf_def)

lemma weighted_threshold: "HISTORY_SIZE MICROGAMES + 1 < length MICROGAMES \<longleftrightarrow> 3 \<le> length MICROGAMES"
  by (auto simp: HISTORY_SIZE_def min_def)

lemma weighted_selects:
  assumes "MICROGAMES \<noteq> []" and "u < 1"
  shows "\<exists>g. pick (u * of_int (totalWeight (gameWeights MICROGAMES recent))) (gameWeights MICROGAMES recent) = Some g"
proof -
  let ?gws = "gameWeights MICROGAMES recent"
  have ne: "?gws \<noteq> []" using assms(1) by (simp add: gameWeights_def)
  have "20 * int (length ?gws) \<le> totalWeight ?gws"
    unfolding totalWeight_sum by (rule sum_weights_lower) (rule weights_ge_20)
  moreover have "0 < length ?gws" using ne by simp
  ultimately have "0 < totalWeight ?gws" by linarith
  then have "u * of_int (totalWeight ?gws) \<le> of_int (sum_list (map snd ?gws))"
    using assms(2) by (simp add: totalWeight_sum)
  from pick_Some [OF ne this] show ?thesis .
qed

lemma transition_recent:
  "recentOf (snd (transitionToGame MICROGAMES sceneExists k gs)) =
     (if k \<noteq> [] \<and> sceneExists k
      then (if HISTORY_SIZE MICROGAMES < length (recentOf gs @ [k])
            then tl (recentOf gs @ [k]) else recentOf gs @ [k])
      else recentOf gs)"
  by (simp add: transitionToGame_def Let_def recentOf_def)

lemma transition_bounded:
  "length (recentOf gs) \<le> HISTORY_SIZE MICROGAMES \<Longrightarrow>
     length (recentOf (snd (transitionToGame MICROGAMES sceneExists k gs))) \<le> HISTORY_SIZE MICROGAMES"
  by (simp add: transition_recent)

lemma transitions_snoc:
  "transitions MICROGAMES sceneExists gs (ks @ [k]) =
     snd (transitionToGame MICROGAMES sceneExists k (transitions MICROGAMES sceneExists gs ks))"
  by (simp add: transitions_def)

lemma transitions_bounded:
  "length (recentOf gs) \<le> HISTORY_SIZE MICROGAMES \<Longrightarrow>
     length (recentOf (transitions MICROGAMES sceneExists gs ks)) \<le> HISTORY_SIZE MICROGAMES"
proof (induction ks rule: rev_induct)
  case Nil
  then show ?case by (simp add: transitions_def)
next
  case (snoc k ks)
  then show ?case by (simp add: transitions_snoc transition_bounded)
qed

lemma history_size: "HISTORY_SIZE MICROGAMES = min 3 (length MICROGAMES div 2)"
  by (simp add: HISTORY_SIZE_def)

lemma transitions_last_keys:
  assumes "length (recentOf gs) \<le> HISTORY_SIZE MICROGAMES"
    and "\<forall>k \<in> set ks. k \<noteq> [] \<and> sceneExists k"
  shows "recentOf (transitions MICROGAMES sceneExists gs ks) =
     drop (length (recentOf gs @ ks) - HISTORY_SIZE MICROGAMES) (recentOf gs @ ks)"
  using assms(2)
proof (induction ks rule: rev_induct)
  case Nil
  then show ?case using assms(1) by (simp add: transitions_def)
next
  case (snoc k ks)
  define H where "H = HISTORY_SIZE MICROGAMES"
  define xs where "xs = recentOf gs @ ks"
  define r where "r = drop (length xs - H) xs"
  from snoc have ih: "recentOf (transitions MICROGAMES sceneExists gs ks) = r"
    and k: "k \<noteq> []" "sceneExists k" by (simp_all add: r_def xs_def H_def)
  have "recentOf (transitions MICROGAMES sceneExists gs (ks @ [k])) =
      (if H < length (recentOf (transitions MICROGAMES sceneExists gs ks) @ [k])
       then tl (recentOf (transitions MICROGAMES sceneExists gs ks) @ [k])
       else recentOf (transitions MICROGAMES sceneExists gs ks) @ [k])"
    unfolding transitions_snoc transition_recent H_def using k by simp
  then have step: "recentOf (transitions MICROGAMES sceneExists gs (ks @ [k])) =
      (if H < length (r @ [k]) then tl (r @ [k]) else r @ [k])"
    unfolding ih .
  have goal: "recentOf (transitions MICROGAMES sceneExists gs (ks @ [k])) =
      drop (length (xs @ [k]) - H) (xs @ [k])"
  proof (cases "length xs < H")
    case True
    then have "r = xs" by (simp add: r_def)
    with True step show ?thesis by simp
  next
    case False
    then have len: "length r = H" by (simp add: r_def)
    have "drop (length (xs @ [k]) - H) (xs @ [k]) = drop (Suc (length xs - H)) (xs @ [k])"
      using False by (simp add: Suc_diff_le)
    also have "\<dots> = tl (drop (length xs - H) (xs @ [k]))"
      by (simp only: drop_Suc tl_drop)
    also have "\<dots> = tl (r @ [k])" by (simp add: r_def)
    finally have "drop (length (xs @ [k]) - H) (xs @ [k]) = tl (r @ [k])" .
    with step len show ?thesis by simp
  qed
  then show ?case by (simp add: xs_def H_def)
qed

section \<open>Outcome declaration\<close>

text \<open>
  C1, as the specification states it: once one outcome has been declared, any later call
  of \<open>setWinState\<close> or \<open>setFailState\<close> is a no-op and exactly one of \<open>hasWon\<close>,
  \<open>hasFailed\<close> is true after resolution. The program does otherwise: each guard tests
  only its own flag, so after \<open>setWinState\<close> a call of \<open>setFailState\<close> changes the
  state, shows its feedback and leaves both flags true; and a round in which neither was
  called ends with both flags false.
\<close>

theorem C1_second_outcome_is_recorded:
  "hasWon (setWinState (create (init INITIAL_GAME_STATE 5000)))
   \<and> \<not> hasFailed (setWinState (create (init INITIAL_GAME_STATE 5000)))
   \<and> setFailState (setWinState (create (init INITIAL_GAME_STATE 5000)))
       \<noteq> setWinState (create (init INITIAL_GAME_STATE 5000))
   \<and> shown (setFailState (setWinState (create (init INITIAL_GAME_STATE 5000)))) = [NICE, MISS]
   \<and> hasWon (endGame (setFailState (setWinState (create (init INITIAL_GAME_STATE 5000)))))
   \<and> hasFailed (endGame (setFailState (setWinState (create (init INITIAL_GAME_STATE 5000)))))
   \<and> \<not> hasWon (endGame (create (init INITIAL_GAME_STATE 5000)))
   \<and> \<not> hasFailed (endGame (create (init INITIAL_GAME_STATE 5000)))"
  by (simp add: create_def init_def setWinState_def setFailState_def endGame_def)

text \<open>
  C1, amended: a repeated call of the same setter is a no-op, a flag once set stays set
  whatever happens later in the round, and after \<open>endGame\<close> both setters are no-ops.
\<close>

theorem C1_same_outcome_is_fixed:
  "setWinState (setWinState m) = setWinState m
   \<and> setFailState (setFailState m) = setFailState m
   \<and> (gameEnded m \<longrightarrow> setWinState m = m \<and> setFailState m = m)
   \<and> (hasWon m \<longrightarrow> setWinState m = m \<and> hasWon (run evs m))
   \<and> (hasFailed m \<longrightarrow> setFailState m = m \<and> hasFailed (run evs m))"
  using run_hasWon [of m evs] run_hasFailed [of m evs]
  by (simp add: setWinState_def setFailState_def)

theorem C1_same_outcome_is_fixed_witness:
  "hasWon (setWinState (create (init INITIAL_GAME_STATE 5000)))
   \<and> setWinState (setWinState (create (init INITIAL_GAME_STATE 5000)))
       = setWinState (create (init INITIAL_GAME_STATE 5000))
   \<and> hasWon (run [CallFail, CallWin, TimerFires] (setWinState (create (init INITIAL_GAME_STATE 5000))))
   \<and> hasFailed (setFailState (create (init INITIAL_GAME_STATE 5000)))
   \<and> hasFailed (run [CallWin, CallFail, TimerFires] (setFailState (create (init INITIAL_GAME_STATE 5000))))
   \<and> gameEnded (endGame (create (init INITIAL_GAME_STATE 5000)))
   \<and> setWinState (endGame (create (init INITIAL_GAME_STATE 5000)))
       = endGame (create (init INITIAL_GAME_STATE 5000))
   \<and> setFailState (endGame (create (init INITIAL_GAME_STATE 5000)))
       = endGame (create (init INITIAL_GAME_STATE 5000))"
proof -
  have w: "hasWon (setWinState (create (init INITIAL_GAME_STATE 5000)))"
    and f: "hasFailed (setFailState (create (init INITIAL_GAME_STATE 5000)))"
    and e: "gameEnded (endGame (create (init INITIAL_GAME_STATE 5000)))"
    by (simp_all add: setWinState_def setFailState_def create_def init_def)
  from w f e
    C1_same_outcome_is_fixed [of "setWinState (create (init INITIAL_GAME_STATE 5000))" "[CallFail, CallWin, TimerFires]"]
    C1_same_outcome_is_fixed [of "setFailState (create (init INITIAL_GAME_STATE 5000))" "[CallWin, CallFail, TimerFires]"]
    C1_same_outcome_is_fixed [of "endGame (create (init INITIAL_GAME_STATE 5000))" "[]"]
  show ?thesis by blast
qed

section \<open>Resolution of a round\<close>

text \<open>
  C2: when the countdown reaches zero (the timer fires with at most 50 ms remaining in a
  round that has not ended), \<open>endGame\<close> runs and the round ends. The round counts as won
  exactly when \<open>hasWon\<close> is true and \<open>hasFailed\<close> is false, so a round that declared
  nothing counts as failed. A won round adds exactly 100 to \<open>score\<close> and 1 to
  \<open>gamesCompleted\<close> and leaves \<open>lives\<close>; a failed round takes exactly 1 from \<open>lives\<close>
  and leaves \<open>score\<close> and \<open>gamesCompleted\<close>.
\<close>

theorem C2_resolution_at_expiry:
  assumes "\<not> gameEnded m" and "gameTimer m" and "timeRemaining m \<le> 50"
  shows "gameEnded (fire TimerFires m)
     \<and> (let won = hasWon m \<and> \<not> hasFailed m;
             gs = gameState m;
             gs' = gameState (fire TimerFires m)
         in (won \<longrightarrow> score gs' = score gs + 100 \<and> gamesCompleted gs' = gamesCompleted gs + 1
                      \<and> lives gs' = lives gs)
            \<and> (\<not> won \<longrightarrow> lives gs' = lives gs - 1 \<and> score gs' = score gs
                      \<and> gamesCompleted gs' = gamesCompleted gs)
            \<and> (score gs' = score gs + 100 \<longleftrightarrow> won)
            \<and> (lives gs' = lives gs - 1 \<longleftrightarrow> \<not> won))"
  using assms
  by (simp add: Let_def timerCallback_def endGame_def updateGameState_def)

theorem C2_resolution_at_expiry_witness:
  "\<not> gameEnded (create (init INITIAL_GAME_STATE 50))
   \<and> gameTimer (create (init INITIAL_GAME_STATE 50))
   \<and> timeRemaining (create (init INITIAL_GAME_STATE 50)) \<le> 50
   \<and> gameEnded (fire TimerFires (create (init INITIAL_GAME_STATE 50)))
   \<and> lives (gameState (fire TimerFires (create (init INITIAL_GAME_STATE 50)))) = 3
   \<and> score (gameState (fire TimerFires (create (init INITIAL_GAME_STATE 50)))) = 0
   \<and> gamesCompleted (gameState (fire TimerFires (create (init INITIAL_GAME_STATE 50)))) = 0
   \<and> lives (gameState (fire TimerFires (setWinState (create (init INITIAL_GAME_STATE 50))))) = 4
   \<and> score (gameState (fire TimerFires (setWinState (create (init INITIAL_GAME_STATE 50))))) = 100
   \<and> gamesCompleted (gameState (fire TimerFires (setWinState (create (init INITIAL_GAME_STATE 50))))) = 1"
  using C2_resolution_at_expiry [of "create (init INITIAL_GAME_STATE 50)"]
        C2_resolution_at_expiry [of "setWinState (create (init INITIAL_GAME_STATE 50))"]
  by (simp add: Let_def create_def init_def setWinState_def INITIAL_GAME_STATE_def)

text \<open>
  C9: at resolution a round counts as won exactly when \<open>hasWon\<close> is true and
  \<open>hasFailed\<close> is false. When both \<open>setWinState\<close> and \<open>setFailState\<close> were called
  in a round, in either order, both flags are true and \<open>endGame\<close> counts the round as
  failed: \<open>lives\<close> goes down by one and \<open>score\<close> and \<open>gamesCompleted\<close> stay.
\<close>

theorem C9_fail_overrides_win:
  assumes "\<not> gameEnded m"
  shows "(score (gameState (endGame m)) = score (gameState m) + 100 \<longleftrightarrow> hasWon m \<and> \<not> hasFailed m)
     \<and> (lives (gameState (endGame m)) = lives (gameState m) - 1 \<longleftrightarrow> \<not> (hasWon m \<and> \<not> hasFailed m))
     \<and> (let wf = setFailState (setWinState m); fw = setWinState (setFailState m)
        in hasWon wf \<and> hasFailed wf \<and> hasWon fw \<and> hasFailed fw
           \<and> lives (gameState (endGame wf)) = lives (gameState m) - 1
           \<and> lives (gameState (endGame fw)) = lives (gameState m) - 1
           \<and> score (gameState (endGame wf)) = score (gameState m)
           \<and> score (gameState (endGame fw)) = score (gameState m)
           \<and> gamesCompleted (gameState (endGame wf)) = gamesCompleted (gameState m)
           \<and> gamesCompleted (gameState (endGame fw)) = gamesCompleted (gameState m))"
  using assms
  by (simp add: Let_def setWinState_def setFailState_def endGame_def updateGameState_def)

theorem C9_fail_overrides_win_witness:
  "\<not> gameEnded (create (init INITIAL_GAME_STATE 4000))
   \<and> hasWon (setFailState (setWinState (create (init INITIAL_GAME_STATE 4000))))
   \<and> hasFailed (setFailState (setWinState (create (init INITIAL_GAME_STATE 4000))))
   \<and> lives (gameState (endGame (setFailState (setWinState (create (init INITIAL_GAME_STATE 4000)))))) = 3
   \<and> lives (gameState (endGame (setWinState (setFailState (create (init INITIAL_GAME_STATE 4000)))))) = 3
   \<and> score (gameState (endGame (setWinState (setFailState (create (init INITIAL_GAME_STATE 4000)))))) = 0"
  using C9_fail_overrides_win [of "create (init INITIAL_GAME_STATE 4000)"]
  by (simp add: Let_def create_def init_def INITIAL_GAME_STATE_def)

section \<open>Cleanup\<close>

text \<open>
  C8: in every round, whatever the round's logic declares and whenever it does so, the
  cleanup (\<open>cleanupControls()\<close> and the removal of the round's timer) has run at most
  once, and exactly once as soon as the round has ended, which it has once the timer has
  fired often enough to bring the countdown to zero. The debug flag of the state plays
  no part. After the round has ended, a further \<open>endGame\<close>, a further declaration and a
  further firing of the timer change nothing.
\<close>

theorem C8_cleanup_exactly_once:
  "cleanupCalls (run evs (create (init gs d))) \<le> 1
   \<and> timerRemovals (run evs (create (init gs d))) = cleanupCalls (run evs (create (init gs d)))
   \<and> (cleanupCalls (run evs (create (init gs d))) = 1 \<longleftrightarrow> gameEnded (run evs (create (init gs d))))
   \<and> (TimerFires \<in> set evs \<and> d \<le> 50 * int (count_list evs TimerFires)
        \<longrightarrow> gameEnded (run evs (create (init gs d))))
   \<and> (gameEnded (run evs (create (init gs d)))
        \<longrightarrow> endGame (run evs (create (init gs d))) = run evs (create (init gs d))
            \<and> fire e (run evs (create (init gs d))) = run evs (create (init gs d)))"
proof -
  let ?start = "create (init gs d)"
  let ?fin = "run evs ?start"
  have a: "cleanupCalls ?start = 0" "timerRemovals ?start = 0" "\<not> gameEnded ?start" "gameTimer ?start"
    by (simp_all add: create_def init_def)
  have t: "timeRemaining ?start = d" by (simp add: create_def init_def)
  note inv = run_inv [OF a, of evs]
  have ended: "gameEnded ?fin"
    if "TimerFires \<in> set evs" "d \<le> 50 * int (count_list evs TimerFires)"
  proof (rule ccontr)
    assume "\<not> gameEnded ?fin"
    from run_time [OF a this] that t show False by simp
  qed
  have noop: "endGame ?fin = ?fin \<and> fire e ?fin = ?fin" if "gameEnded ?fin"
  proof -
    from that inv have "\<not> gameTimer ?fin" by simp
    with that show ?thesis
      by (cases e) (simp_all add: endGame_def setWinState_def setFailState_def)
  qed
  show ?thesis using inv ended noop by blast
qed

theorem C8_cleanup_exactly_once_witness:
  "TimerFires \<in> set [CallWin, TimerFires, CallFail, TimerFires, TimerFires]
   \<and> (100::int) \<le> 50 * int (count_list [CallWin, TimerFires, CallFail, TimerFires, TimerFires] TimerFires)
   \<and> gameEnded (run [CallWin, TimerFires, CallFail, TimerFires, TimerFires] (create (init INITIAL_GAME_STATE 100)))
   \<and> cleanupCalls (run [CallWin, TimerFires, CallFail, TimerFires, TimerFires] (create (init INITIAL_GAME_STATE 100))) = 1
   \<and> timerRemovals (run [CallWin, TimerFires, CallFail, TimerFires, TimerFires] (create (init INITIAL_GAME_STATE 100))) = 1
   \<and> fire TimerFires (run [CallWin, TimerFires, CallFail, TimerFires, TimerFires] (create (init INITIAL_GAME_STATE 100)))
       = run [CallWin, TimerFires, CallFail, TimerFires, TimerFires] (create (init INITIAL_GAME_STATE 100))"
  using C8_cleanup_exactly_once [of "[CallWin, TimerFires, CallFail, TimerFires, TimerFires]" INITIAL_GAME_STATE 100 TimerFires]
  by simp

section \<open>Lives and the end of the session\<close>

text \<open>
  C3: in a session that starts with \<open>lives = 4\<close> and is not in debug mode, \<open>lives\<close> is
  never negative, and the session has returned to the title scene exactly when \<open>lives\<close>
  is 0. While the session goes on, the next round keeps \<open>lives\<close> non-negative, returns to
  the title scene exactly when it brings \<open>lives\<close> to 0, and does so only as a failed
  round: a won round leaves \<open>lives\<close> as it is and continues with the transition scene.
  The program evaluates \<open>lives <= 0\<close> after every round; in such a session the test
  can hold only after a failed one. The statement is about the rounds of a session, as
  \<open>endGame\<close> resolves them.
\<close>

theorem C3_lives_and_session_end:
  assumes "lives gs0 = 4" and "debugMode gs0 \<noteq> Some True" and "session gs0 rs = (sc, gs)"
  shows "0 \<le> lives gs \<and> (sc = TitleScene \<longleftrightarrow> lives gs = 0)
     \<and> (sc = TransitionScene \<longrightarrow>
          (let gs' = gameState (endGame (atExpiry gs w f))
           in 0 \<le> lives gs' \<and> (nextScene gs' = TitleScene \<longleftrightarrow> lives gs' = 0)
              \<and> (lives gs' = 0 \<longrightarrow> \<not> (w \<and> \<not> f) \<and> lives gs = 1)
              \<and> (w \<and> \<not> f \<longrightarrow> nextScene gs' = TransitionScene \<and> lives gs' = lives gs)))"
proof -
  from assms(1) have "1 \<le> lives gs0" by simp
  note s = session_lives [OF this assms(2,3)]
  then have a: "0 \<le> lives gs \<and> (sc = TitleScene \<longleftrightarrow> lives gs = 0)" by auto
  have b: "0 \<le> lives gs' \<and> (nextScene gs' = TitleScene \<longleftrightarrow> lives gs' = 0)
        \<and> (lives gs' = 0 \<longrightarrow> \<not> (w \<and> \<not> f) \<and> lives gs = 1)
        \<and> (w \<and> \<not> f \<longrightarrow> nextScene gs' = TransitionScene \<and> lives gs' = lives gs)"
    if "sc = TransitionScene" and "gs' = gameState (endGame (atExpiry gs w f))" for gs'
    using that s by (auto simp: round_state update_lives update_debugMode nextScene_def)
  show ?thesis unfolding Let_def using a b by blast
qed

theorem C3_lives_and_session_end_witness:
  "lives INITIAL_GAME_STATE = 4 \<and> debugMode INITIAL_GAME_STATE \<noteq> Some True
   \<and> session INITIAL_GAME_STATE [(True, False), (False, False), (True, True), (False, True), (False, False)]
       = (TitleScene, INITIAL_GAME_STATE\<lparr>lives := 0, score := 100, gamesCompleted := 1\<rparr>)
   \<and> 0 \<le> lives (INITIAL_GAME_STATE\<lparr>lives := 0, score := 100, gamesCompleted := 1\<rparr>)
   \<and> session INITIAL_GAME_STATE [(False, False), (False, True), (True, True)]
       = (TransitionScene, INITIAL_GAME_STATE\<lparr>lives := 1\<rparr>)
   \<and> nextScene (gameState (endGame (atExpiry (INITIAL_GAME_STATE\<lparr>lives := 1\<rparr>) False False))) = TitleScene
   \<and> lives (gameState (endGame (atExpiry (INITIAL_GAME_STATE\<lparr>lives := 1\<rparr>) False False))) = 0
   \<and> nextScene (gameState (endGame (atExpiry (INITIAL_GAME_STATE\<lparr>lives := 1\<rparr>) True False))) = TransitionScene"
proof -
  have a: "lives INITIAL_GAME_STATE = 4" and b: "debugMode INITIAL_GAME_STATE \<noteq> Some True"
    by (simp_all add: INITIAL_GAME_STATE_def)
  have c: "session INITIAL_GAME_STATE [(True, False), (False, False), (True, True), (False, True), (False, False)]
       = (TitleScene, INITIAL_GAME_STATE\<lparr>lives := 0, score := 100, gamesCompleted := 1\<rparr>)"
    by (simp add: INITIAL_GAME_STATE_def round_state updateGameState_def nextScene_def Let_def)
  have d: "session INITIAL_GAME_STATE [(False, False), (False, True), (True, True)]
       = (TransitionScene, INITIAL_GAME_STATE\<lparr>lives := 1\<rparr>)"
    by (simp add: INITIAL_GAME_STATE_def round_state updateGameState_def nextScene_def Let_def)
  have l: "lives (gameState (endGame (atExpiry (INITIAL_GAME_STATE\<lparr>lives := 1\<rparr>) False False))) = 0"
    by (simp add: round_state update_lives)
  from C3_lives_and_session_end [OF a b c]
  have c': "0 \<le> lives (INITIAL_GAME_STATE\<lparr>lives := 0, score := 100, gamesCompleted := 1\<rparr>)"
    by blast
  from C3_lives_and_session_end [OF a b d, of False False] l
  have d1: "nextScene (gameState (endGame (atExpiry (INITIAL_GAME_STATE\<lparr>lives := 1\<rparr>) False False))) = TitleScene"
    unfolding Let_def by blast
  from C3_lives_and_session_end [OF a b d, of True False]
  have d2: "nextScene (gameState (endGame (atExpiry (INITIAL_GAME_STATE\<lparr>lives := 1\<rparr>) True False))) = TransitionScene"
    unfolding Let_def by blast
  from a b c c' d d1 l d2 show ?thesis by blast
qed

section \<open>Speed\<close>

text \<open>
  C4, as the specification states it: on a win that makes \<open>gamesCompleted\<close> a positive
  multiple of 5 the speed multiplier increases by exactly 0.2. The program adds in
  binary64 arithmetic: from the initial state, the fourteenth win leaves \<open>speed\<close> at the
  binary64 value of 1.4, and the fifteenth takes it to 1.5999999999999999 (the value
  \<open>7205759403792793 / 2^52\<close>), which is neither 0.2 more, nor 1.6, nor the binary64
  value of 1.6.
\<close>

theorem C4_increase_is_not_exact:
  "session INITIAL_GAME_STATE [(True, False), (True, False), (True, False), (True, False), (True, False), (True, False), (True, False), (True, False), (True, False), (True, False), (True, False), (True, False), (True, False), (True, False)]
     = (TransitionScene,
        INITIAL_GAME_STATE\<lparr>score := 1400, speed := 3152519739159347 / 2251799813685248,
                           gamesCompleted := 14\<rparr>)
   \<and> session INITIAL_GAME_STATE [(True, False), (True, False), (True, False), (True, False), (True, False), (True, False), (True, False), (True, False), (True, False), (True, False), (True, False), (True, False), (True, False), (True, False), (True, False)]
     = (TransitionScene,
        INITIAL_GAME_STATE\<lparr>score := 1500, speed := 7205759403792793 / 4503599627370496,
                           gamesCompleted := 15\<rparr>)
   \<and> (7205759403792793 / 4503599627370496 :: real) - 3152519739159347 / 2251799813685248 \<noteq> 2 / 10
   \<and> (7205759403792793 / 4503599627370496 :: real) \<noteq> 16 / 10
   \<and> 7205759403792793 / 4503599627370496 \<noteq> toDouble (16 / 10)"
proof -
  have a: "session INITIAL_GAME_STATE [(True, False), (True, False), (True, False), (True, False), (True, False), (True, False), (True, False), (True, False), (True, False), (True, False), (True, False), (True, False), (True, False), (True, False)]
     = (TransitionScene,
        INITIAL_GAME_STATE\<lparr>score := 1400, speed := 3152519739159347 / 2251799813685248,
                           gamesCompleted := 14\<rparr>)"
    by (simp add: INITIAL_GAME_STATE_def round_state updateGameState_def nextScene_def toDouble_eval)
  have b: "session INITIAL_GAME_STATE [(True, False), (True, False), (True, False), (True, False), (True, False), (True, False), (True, False), (True, False), (True, False), (True, False), (True, False), (True, False), (True, False), (True, False), (True, False)]
     = (TransitionScene,
        INITIAL_GAME_STATE\<lparr>score := 1500, speed := 7205759403792793 / 4503599627370496,
                           gamesCompleted := 15\<rparr>)"
    by (simp add: INITIAL_GAME_STATE_def round_state updateGameState_def nextScene_def toDouble_eval)
  have c: "(7205759403792793 / 4503599627370496 :: real) - 3152519739159347 / 2251799813685248 \<noteq> 2 / 10"
    and d: "(7205759403792793 / 4503599627370496 :: real) \<noteq> 16 / 10"
    by simp_all
  have e: "7205759403792793 / 4503599627370496 \<noteq> toDouble (16 / 10)"
    by (simp add: toDouble_eval)
  from a b c d e show ?thesis by blast
qed

text \<open>
  C4, amended: in a session that starts at \<open>speed = 1\<close>, \<open>speed\<close> always lies between 1
  and 3. A round changes it exactly when the round is won and the resulting
  \<open>gamesCompleted\<close> is a positive multiple of 5; the new value is then the binary64 sum
  of the old one and 0.2, capped at 3. It never decreases, and an increase that stays
  below the cap differs from 0.2 by at most \<open>2^-52\<close>. When the session also starts at
  \<open>gamesCompleted = 0\<close>, as the initial state does, \<open>speed\<close> is the result of one such
  increase for every five rounds won, which is within \<open>2^-51\<close> of 1 plus 0.2 for every
  five rounds won, capped at 3. The values it takes are the eleven binary64 values 1, 1.2,
  1.4, 1.5999999999999999, 1.7999999999999998, 1.9999999999999998, 2.1999999999999997,
  2.4, 2.6, 2.8000000000000003 and 3.
\<close>

theorem C4_speed_steps:
  assumes "speed gs0 = 1" and "session gs0 rs = (sc, gs)"
  shows "1 \<le> speed gs \<and> speed gs \<le> 3
     \<and> (let gs' = gameState (endGame (atExpiry gs w f))
        in speed gs' =
             (if (w \<and> \<not> f) \<and> 0 < gamesCompleted gs' \<and> gamesCompleted gs' mod 5 = 0
              then min (toDouble (speed gs + toDouble (2 / 10))) 3 else speed gs)
           \<and> speed gs \<le> speed gs' \<and> speed gs' \<le> 3
           \<and> (speed gs < speed gs' \<and> speed gs' < 3
                \<longrightarrow> \<bar>speed gs' - speed gs - 2 / 10\<bar> \<le> 1 / 2 ^ 52))
     \<and> speed gs \<in> set [1, 5404319552844595 / 4503599627370496, 3152519739159347 / 2251799813685248,
                 7205759403792793 / 4503599627370496, 2026619832316723 / 1125899906842624,
                 9007199254740991 / 4503599627370496, 4953959590107545 / 2251799813685248,
                 5404319552844595 / 2251799813685248, 5854679515581645 / 2251799813685248,
                 6305039478318695 / 2251799813685248, 3]
     \<and> (gamesCompleted gs0 = 0 \<longrightarrow>
           speed gs = speedAfter (nat (gamesCompleted gs div 5))
           \<and> speed gs = [1, 5404319552844595 / 4503599627370496, 3152519739159347 / 2251799813685248,
                 7205759403792793 / 4503599627370496, 2026619832316723 / 1125899906842624,
                 9007199254740991 / 4503599627370496, 4953959590107545 / 2251799813685248,
                 5404319552844595 / 2251799813685248, 5854679515581645 / 2251799813685248,
                 6305039478318695 / 2251799813685248, 3] ! min (nat (gamesCompleted gs div 5)) 10
           \<and> \<bar>speed gs - min (1 + real_of_int (gamesCompleted gs div 5) * (2 / 10)) 3\<bar> \<le> 1 / 2 ^ 51)"
proof -
  from assms(1) have "speed gs0 = speedAfter 0" by simp
  from session_speedAfter [OF this assms(2)] obtain k where k: "speed gs = speedAfter k"
    by blast
  note p = speedAfter_props [of k]
  have a: "1 \<le> speed gs" "speed gs \<le> 3"
    using p speedAfter_props [of "k - 1"] k
    by (cases k; simp del: speedAfter.simps(2))+
  let ?g = "gameState (endGame (atExpiry gs w f))"
  define c where "c \<longleftrightarrow> (w \<and> \<not> f) \<and> 0 < gamesCompleted ?g \<and> gamesCompleted ?g mod 5 = 0"
  have eq0: "speed ?g = (if (w \<and> \<not> f) \<and> 0 < gamesCompleted ?g \<and> gamesCompleted ?g mod 5 = 0
      then min (toDouble (speed gs + toDouble (2 / 10))) 3 else speed gs)"
    by (auto simp: round_state update_speed update_gamesCompleted)
  then have eq: "speed ?g = (if c then min (toDouble (speed gs + toDouble (2 / 10))) 3 else speed gs)"
    unfolding c_def .
  have lv: "speed ?g = (if c then speedAfter (Suc k) else speedAfter k)"
    unfolding speedAfter.simps(2) k [symmetric] by (rule eq)
  have b2: "speed gs \<le> speed ?g \<and> speed ?g \<le> 3"
  proof (cases c)
    case True
    with lv have "speed ?g = speedAfter (Suc k)" by (simp only: if_True)
    with k p show ?thesis by (simp only:)
  next
    case False
    with lv k have "speed ?g = speed gs" by (simp only: if_False)
    with a show ?thesis by simp
  qed
  have b3: "\<bar>speed ?g - speed gs - 2 / 10\<bar> \<le> 1 / 2 ^ 52"
    if "speed gs < speed ?g" "speed ?g < 3"
  proof (cases c)
    case True
    with lv have "speed ?g = speedAfter (Suc k)" by (simp only: if_True)
    with that k p show ?thesis by (simp only:)
  next
    case False
    with lv k have "speed ?g = speed gs" by (simp only: if_False)
    with that show ?thesis by simp
  qed
  have lvl: "speed gs \<in> set [1, 5404319552844595 / 4503599627370496, 3152519739159347 / 2251799813685248,
                 7205759403792793 / 4503599627370496, 2026619832316723 / 1125899906842624,
                 9007199254740991 / 4503599627370496, 4953959590107545 / 2251799813685248,
                 5404319552844595 / 2251799813685248, 5854679515581645 / 2251799813685248,
                 6305039478318695 / 2251799813685248, 3]"
    unfolding k by (rule speedAfter_level)
  have c: "speed gs = speedAfter (nat (gamesCompleted gs div 5))
           \<and> speed gs = [1, 5404319552844595 / 4503599627370496, 3152519739159347 / 2251799813685248,
                 7205759403792793 / 4503599627370496, 2026619832316723 / 1125899906842624,
                 9007199254740991 / 4503599627370496, 4953959590107545 / 2251799813685248,
                 5404319552844595 / 2251799813685248, 5854679515581645 / 2251799813685248,
                 6305039478318695 / 2251799813685248, 3] ! min (nat (gamesCompleted gs div 5)) 10
           \<and> \<bar>speed gs - min (1 + real_of_int (gamesCompleted gs div 5) * (2 / 10)) 3\<bar> \<le> 1 / 2 ^ 51"
    if "gamesCompleted gs0 = 0"
  proof -
    from that assms(1) have "speed gs0 = speedAfter (nat (gamesCompleted gs0 div 5))"
      and "0 \<le> gamesCompleted gs0" by simp_all
    from session_speed_closed [OF this assms(2)]
    have s: "speed gs = speedAfter (nat (gamesCompleted gs div 5))" and g: "0 \<le> gamesCompleted gs"
      by simp_all
    from g have "real (nat (gamesCompleted gs div 5)) = real_of_int (gamesCompleted gs div 5)"
      by simp
    with speedAfter_props [of "nat (gamesCompleted gs div 5)"] s
    have "\<bar>speed gs - min (1 + real_of_int (gamesCompleted gs div 5) * (2 / 10)) 3\<bar> \<le> 1 / 2 ^ 51"
      by (simp del: speedAfter.simps(2))
    moreover have "speed gs = [1, 5404319552844595 / 4503599627370496, 3152519739159347 / 2251799813685248,
                 7205759403792793 / 4503599627370496, 2026619832316723 / 1125899906842624,
                 9007199254740991 / 4503599627370496, 4953959590107545 / 2251799813685248,
                 5404319552844595 / 2251799813685248, 5854679515581645 / 2251799813685248,
                 6305039478318695 / 2251799813685248, 3] ! min (nat (gamesCompleted gs div 5)) 10"
      unfolding s by (rule speedAfter_nth)
    ultimately show ?thesis using s by blast
  qed
  show ?thesis unfolding Let_def using a eq0 b2 b3 lvl c by blast
qed

theorem C4_speed_steps_witness:
  "speed INITIAL_GAME_STATE = 1 \<and> gamesCompleted INITIAL_GAME_STATE = 0
   \<and> session INITIAL_GAME_STATE [(True, False), (True, False), (True, False), (True, False), (True, False)]
       = (TransitionScene,
          INITIAL_GAME_STATE\<lparr>score := 500, speed := 5404319552844595 / 4503599627370496,
                             gamesCompleted := 5\<rparr>)
   \<and> 1 \<le> speed (INITIAL_GAME_STATE\<lparr>score := 500, speed := 5404319552844595 / 4503599627370496,
                             gamesCompleted := 5\<rparr>)
   \<and> speed (INITIAL_GAME_STATE\<lparr>score := 500, speed := 5404319552844595 / 4503599627370496,
                             gamesCompleted := 5\<rparr>) \<le> 3
   \<and> speed (INITIAL_GAME_STATE\<lparr>score := 500, speed := 5404319552844595 / 4503599627370496,
                             gamesCompleted := 5\<rparr>)
       = speedAfter (nat (gamesCompleted (INITIAL_GAME_STATE\<lparr>score := 500,
            speed := 5404319552844595 / 4503599627370496, gamesCompleted := 5\<rparr>) div 5))"
proof -
  have a: "speed INITIAL_GAME_STATE = 1" and g: "gamesCompleted INITIAL_GAME_STATE = 0"
    by (simp_all add: INITIAL_GAME_STATE_def)
  have c: "session INITIAL_GAME_STATE [(True, False), (True, False), (True, False), (True, False), (True, False)]
       = (TransitionScene,
          INITIAL_GAME_STATE\<lparr>score := 500, speed := 5404319552844595 / 4503599627370496,
                             gamesCompleted := 5\<rparr>)"
    by (simp add: INITIAL_GAME_STATE_def round_state updateGameState_def nextScene_def toDouble_eval)
  from C4_speed_steps [OF a c] g a c show ?thesis by blast
qed

section \<open>Selection\<close>




text \<open>
  C10: for a non-empty catalog and a draw \<open>u\<close> with \<open>0 \<le> u < 1\<close>, every candidate's
  weight is at least 20, the total weight is positive, the scaled draw lies strictly
  below the total weight, and the loop that subtracts the weights assigns a round before
  it ends. So no selection comes from the fallback after the loop, and on the weighted
  branch the selection always comes from the loop.
\<close>

theorem C10_loop_always_selects:
  assumes "MICROGAMES \<noteq> []" and "0 \<le> u" and "u < 1"
  shows "(let gws = gameWeights MICROGAMES recent; random = u * of_int (totalWeight gws)
          in (\<forall>(g, w) \<in> set gws. 20 \<le> w) \<and> 0 < totalWeight gws
             \<and> random < of_int (totalWeight gws)
             \<and> pick random gws \<noteq> None)
         \<and> (\<forall>sel gs'. showNextGameControls MICROGAMES gs u u2 = Inr (sel, gs')
               \<longrightarrow> sel \<noteq> NoGames \<and> (\<forall>g. sel \<noteq> Selected Fallback g))
         \<and> (HISTORY_SIZE MICROGAMES + 1 < length MICROGAMES
               \<longrightarrow> (\<exists>g gs'. showNextGameControls MICROGAMES gs u u2 = Inr (Selected Weighted g, gs')))"
proof -
  define gws where "gws = gameWeights MICROGAMES recent"
  have ne: "gws \<noteq> []" using assms(1) by (simp add: gws_def gameWeights_def)
  have w20: "\<forall>(g, w) \<in> set gws. 20 \<le> w" using weights_ge_20 by (auto simp: gws_def)
  then have "20 * int (length gws) \<le> totalWeight gws"
    using sum_weights_lower [of gws] by (auto simp: totalWeight_sum)
  moreover have "0 < length gws" using ne by simp
  ultimately have pos: "0 < totalWeight gws" by linarith
  then have lt: "u * of_int (totalWeight gws) < of_int (totalWeight gws)"
    using assms(3) by simp
  then have "\<exists>g. pick (u * of_int (totalWeight gws)) gws = Some g"
    using pick_Some [OF ne] by (simp add: totalWeight_sum)
  then have pk: "pick (u * of_int (totalWeight gws)) gws \<noteq> None" by auto
  have first: "(let gws = gameWeights MICROGAMES recent; random = u * of_int (totalWeight gws)
          in (\<forall>(g, w) \<in> set gws. 20 \<le> w) \<and> 0 < totalWeight gws
             \<and> random < of_int (totalWeight gws)
             \<and> pick random gws \<noteq> None)"
    using w20 pos lt pk unfolding gws_def Let_def by blast
  define gws' where "gws' = gameWeights MICROGAMES (recentOf (gs\<lparr>recentGames := Some (recentOf gs)\<rparr>))"
  have ne': "gws' \<noteq> []" using assms(1) by (simp add: gws'_def gameWeights_def)
  have "\<forall>(g, w) \<in> set gws'. 20 \<le> w" using weights_ge_20 by (auto simp: gws'_def)
  then have "20 * int (length gws') \<le> totalWeight gws'"
    using sum_weights_lower [of gws'] by (auto simp: totalWeight_sum)
  moreover have "0 < length gws'" using ne' by simp
  ultimately have pos': "0 < totalWeight gws'" by linarith
  then have "u * of_int (totalWeight gws') \<le> of_int (sum_list (map snd gws'))"
    using assms(3) by (simp add: totalWeight_sum)
  from pick_Some [OF ne' this]
  obtain g where g: "pick (u * of_int (totalWeight gws')) gws' = Some g" by blast
  have second: "sel \<noteq> NoGames \<and> (\<forall>g. sel \<noteq> Selected Fallback g)"
    if "showNextGameControls MICROGAMES gs u u2 = Inr (sel, gs')" for sel gs'
    using that assms(1) g
    by (auto simp: showNextGameControls_def Let_def gws'_def split: if_splits option.splits)
  have third: "\<exists>g gs'. showNextGameControls MICROGAMES gs u u2 = Inr (Selected Weighted g, gs')"
    if "HISTORY_SIZE MICROGAMES + 1 < length MICROGAMES"
    using that assms(1) g
    by (auto simp: showNextGameControls_def Let_def gws'_def split: if_splits option.splits)
  show ?thesis using first second third by blast
qed

theorem C10_loop_always_selects_witness:
  "[game ''A'', game ''B'', game ''C''] \<noteq> [] \<and> (0::real) \<le> 1 / 2 \<and> (1::real) / 2 < 1
   \<and> totalWeight (gameWeights [game ''A'', game ''B'', game ''C''] [''A'']) = 220
   \<and> pick (1 / 2 * 220) (gameWeights [game ''A'', game ''B'', game ''C''] [''A'']) = Some (game ''B'')"
  using C10_loop_always_selects [of "[game ''A'', game ''B'', game ''C'']" "1 / 2" "[''A'']" INITIAL_GAME_STATE 0]
  by (simp add: gameWeights_def totalWeight_def game_def Let_def)

text \<open>
  C6, as the specification states it: the selector samples by weight exactly when the
  catalog has more than \<open>2 * historySize\<close> rounds, and otherwise chooses uniformly among
  all rounds but the previous one. The program compares the catalog with
  \<open>historySize + 1\<close>: a catalog of four rounds, for which \<open>2 * historySize = 4\<close>, is
  sampled by weight, and with the draw 0 the previous round \<open>A\<close> is selected again.
\<close>

theorem C6_small_catalog_is_weighted:
  "\<not> 2 * HISTORY_SIZE [game ''A'', game ''B'', game ''C'', game ''D''] < length [game ''A'', game ''B'', game ''C'', game ''D'']
   \<and> previousGameKey (INITIAL_GAME_STATE\<lparr>previousGameKey := Some ''A'', recentGames := Some [''B'', ''A'']\<rparr>)
       = Some (key (game ''A''))
   \<and> showNextGameControls [game ''A'', game ''B'', game ''C'', game ''D'']
         (INITIAL_GAME_STATE\<lparr>previousGameKey := Some ''A'', recentGames := Some [''B'', ''A'']\<rparr>) 0 0
       = Inr (Selected Weighted (game ''A''),
              INITIAL_GAME_STATE\<lparr>previousGameKey := Some ''A'', recentGames := Some [''B'', ''A'']\<rparr>)"
  by (simp add: Let_def HISTORY_SIZE_def recentOf_def showNextGameControls_def gameWeights_def
      totalWeight_def game_def INITIAL_GAME_STATE_def)

text \<open>
  C6, amended: for a non-empty catalog and a draw \<open>0 \<le> u < 1\<close>, the selector samples by
  weight exactly when the catalog has more than \<open>historySize + 1\<close> rounds, which is when
  it has at least three. Otherwise it takes the round at index \<open>floor(u * n)\<close> of the
  \<open>n\<close> available rounds, which are the rounds whose key differs from \<open>previousGameKey\<close>
  when that key is set and the catalog has more than one round, and all rounds when not;
  when no round is available the call fails.
\<close>

theorem C6_selection_paths:
  assumes "MICROGAMES \<noteq> []" and "0 \<le> u" and "u < 1"
  shows "(HISTORY_SIZE MICROGAMES + 1 < length MICROGAMES \<longleftrightarrow> 3 \<le> length MICROGAMES)
     \<and> (HISTORY_SIZE MICROGAMES + 1 < length MICROGAMES \<longrightarrow>
          (\<exists>g. showNextGameControls MICROGAMES gs u u2
                 = Inr (Selected Weighted g, gs\<lparr>recentGames := Some (recentOf gs)\<rparr>)))
     \<and> (length MICROGAMES \<le> HISTORY_SIZE MICROGAMES + 1 \<longrightarrow>
          (let availableGames =
                 (if truthy (previousGameKey gs) \<and> 1 < length MICROGAMES
                  then filter (\<lambda>g. Some (key g) \<noteq> previousGameKey gs) MICROGAMES
                  else MICROGAMES)
           in showNextGameControls MICROGAMES gs u u2 =
                (if availableGames = [] then Inl TypeError
                 else Inr (Selected SmallCatalog
                             (availableGames ! nat \<lfloor>u * real (length availableGames)\<rfloor>),
                           gs\<lparr>recentGames := Some (recentOf gs)\<rparr>))))"
proof -
  have w: "\<exists>g. showNextGameControls MICROGAMES gs u u2
                 = Inr (Selected Weighted g, gs\<lparr>recentGames := Some (recentOf gs)\<rparr>)"
    if "HISTORY_SIZE MICROGAMES + 1 < length MICROGAMES"
  proof -
    from weighted_selects [OF assms(1,3), of "recentOf gs"] obtain g where
      "pick (u * of_int (totalWeight (gameWeights MICROGAMES (recentOf gs)))) (gameWeights MICROGAMES (recentOf gs)) = Some g"
      by blast
    then show ?thesis using that assms(1)
      by (simp add: showNextGameControls_def Let_def)
  qed
  have s: "showNextGameControls MICROGAMES gs u u2 =
                (if availableGames = [] then Inl TypeError
                 else Inr (Selected SmallCatalog
                             (availableGames ! nat \<lfloor>u * real (length availableGames)\<rfloor>),
                           gs\<lparr>recentGames := Some (recentOf gs)\<rparr>))"
    if le: "length MICROGAMES \<le> HISTORY_SIZE MICROGAMES + 1"
      and av: "availableGames =
                 (if truthy (previousGameKey gs) \<and> 1 < length MICROGAMES
                  then filter (\<lambda>g. Some (key g) \<noteq> previousGameKey gs) MICROGAMES
                  else MICROGAMES)" for availableGames
  proof -
    have e: "showNextGameControls MICROGAMES gs u u2 =
        (case GetRandom availableGames u of
                    None \<Rightarrow> Inl TypeError
                  | Some g \<Rightarrow> Inr (Selected SmallCatalog g, gs\<lparr>recentGames := Some (recentOf gs)\<rparr>))"
      using le assms(1) by (simp add: showNextGameControls_def Let_def av)
    show ?thesis
    proof (cases "availableGames = []")
      case True
      then show ?thesis by (simp add: e GetRandom_Nil)
    next
      case False
      from GetRandom_in_range [OF False assms(2,3)] False show ?thesis by (simp add: e)
    qed
  qed
  show ?thesis unfolding Let_def using weighted_threshold w s by blast
qed

theorem C6_selection_paths_witness:
  "[game ''A'', game ''B''] \<noteq> [] \<and> (0::real) \<le> 1 / 2 \<and> (1::real) / 2 < 1
   \<and> length [game ''A'', game ''B''] \<le> HISTORY_SIZE [game ''A'', game ''B''] + 1
   \<and> showNextGameControls [game ''A'', game ''B''] (INITIAL_GAME_STATE\<lparr>previousGameKey := Some ''A''\<rparr>) (1 / 2) 0
       = Inr (Selected SmallCatalog (game ''B''), INITIAL_GAME_STATE\<lparr>previousGameKey := Some ''A''\<rparr>)
   \<and> HISTORY_SIZE [game ''A'', game ''B'', game ''C''] + 1 < length [game ''A'', game ''B'', game ''C'']
   \<and> (\<exists>g. showNextGameControls [game ''A'', game ''B'', game ''C''] INITIAL_GAME_STATE (1 / 2) 0
            = Inr (Selected Weighted g, INITIAL_GAME_STATE\<lparr>recentGames := Some (recentOf INITIAL_GAME_STATE)\<rparr>))"
proof -
  have a: "[game ''A'', game ''B''] \<noteq> []" and b: "(0::real) \<le> 1 / 2" and c: "(1::real) / 2 < 1"
    and a3: "[game ''A'', game ''B'', game ''C''] \<noteq> []"
    by simp_all
  have d: "length [game ''A'', game ''B''] \<le> HISTORY_SIZE [game ''A'', game ''B''] + 1"
    and d3: "HISTORY_SIZE [game ''A'', game ''B'', game ''C''] + 1 < length [game ''A'', game ''B'', game ''C'']"
    by (simp_all add: HISTORY_SIZE_def)
  from C6_selection_paths [OF a b c, of "INITIAL_GAME_STATE\<lparr>previousGameKey := Some ''A''\<rparr>" 0] d
  have e: "showNextGameControls [game ''A'', game ''B''] (INITIAL_GAME_STATE\<lparr>previousGameKey := Some ''A''\<rparr>) (1 / 2) 0
       = Inr (Selected SmallCatalog (game ''B''), INITIAL_GAME_STATE\<lparr>previousGameKey := Some ''A''\<rparr>)"
    by (simp add: Let_def truthy_def game_def recentOf_def INITIAL_GAME_STATE_def)
  from C6_selection_paths [OF a3 b c, of INITIAL_GAME_STATE 0] d3
  have e3: "\<exists>g. showNextGameControls [game ''A'', game ''B'', game ''C''] INITIAL_GAME_STATE (1 / 2) 0
            = Inr (Selected Weighted g, INITIAL_GAME_STATE\<lparr>recentGames := Some (recentOf INITIAL_GAME_STATE)\<rparr>)"
    by blast
  from a b c d e d3 e3 show ?thesis by blast
qed

section \<open>History\<close>

text \<open>
  C7: with \<open>historySize = min(3, floor(catalogSize / 2))\<close>, a transition to the chosen
  round appends its key to \<open>recentGames\<close> and, once the length exceeds \<open>historySize\<close>,
  removes the first entry, which is the oldest. A history of at most \<open>historySize\<close>
  entries stays so. From the initial state, after any sequence of transitions,
  \<open>recentGames\<close> holds at most \<open>historySize\<close> entries, and when every transition found
  its round they are the last \<open>historySize\<close> keys chosen, in the order chosen.
\<close>

theorem C7_history_bounded:
  assumes "nextGameKey \<noteq> []" and "sceneExists nextGameKey"
  shows "(let historySize = min 3 (length MICROGAMES div 2);
              pushed = recentOf gs @ [nextGameKey];
              gs' = snd (transitionToGame MICROGAMES sceneExists nextGameKey gs)
          in fst (transitionToGame MICROGAMES sceneExists nextGameKey gs) = MicrogameScene nextGameKey
             \<and> recentGames gs' = Some (if historySize < length pushed then tl pushed else pushed)
             \<and> (recentOf gs \<noteq> [] \<and> historySize < length pushed
                  \<longrightarrow> recentOf gs' = tl (recentOf gs) @ [nextGameKey])
             \<and> (length pushed \<le> historySize \<longrightarrow> recentOf gs' = recentOf gs @ [nextGameKey])
             \<and> (length (recentOf gs) \<le> historySize \<longrightarrow> length (recentOf gs') \<le> historySize))
     \<and> length (recentOf (transitions MICROGAMES anyScene INITIAL_GAME_STATE ks))
           \<le> min 3 (length MICROGAMES div 2)
     \<and> ((\<forall>k \<in> set ks. k \<noteq> [] \<and> anyScene k) \<longrightarrow>
           recentOf (transitions MICROGAMES anyScene INITIAL_GAME_STATE ks)
             = drop (length ks - min 3 (length MICROGAMES div 2)) ks)"
proof -
  define H where "H = min 3 (length MICROGAMES div 2)"
  have hs: "HISTORY_SIZE MICROGAMES = H" by (simp add: H_def HISTORY_SIZE_def)
  have i: "length (recentOf INITIAL_GAME_STATE) \<le> HISTORY_SIZE MICROGAMES"
    and i0: "recentOf INITIAL_GAME_STATE = []"
    by (simp_all add: recentOf_def INITIAL_GAME_STATE_def)
  have a: "fst (transitionToGame MICROGAMES sceneExists nextGameKey gs) = MicrogameScene nextGameKey"
    using assms by (simp add: transitionToGame_def Let_def)
  have b: "recentGames (snd (transitionToGame MICROGAMES sceneExists nextGameKey gs)) =
      Some (if H < length (recentOf gs @ [nextGameKey])
            then tl (recentOf gs @ [nextGameKey]) else recentOf gs @ [nextGameKey])"
    using assms by (simp add: transitionToGame_def Let_def hs)
  have c: "recentOf (snd (transitionToGame MICROGAMES sceneExists nextGameKey gs)) = tl (recentOf gs) @ [nextGameKey]"
    if "recentOf gs \<noteq> []" "H < length (recentOf gs @ [nextGameKey])"
    using that assms by (simp add: transition_recent hs)
  have d: "recentOf (snd (transitionToGame MICROGAMES sceneExists nextGameKey gs)) = recentOf gs @ [nextGameKey]"
    if "length (recentOf gs @ [nextGameKey]) \<le> H"
    using that assms by (simp add: transition_recent hs)
  have e: "length (recentOf (snd (transitionToGame MICROGAMES sceneExists nextGameKey gs))) \<le> H"
    if "length (recentOf gs) \<le> H"
    using that transition_bounded [of gs MICROGAMES sceneExists nextGameKey]
    by (simp add: hs)
  have f: "length (recentOf (transitions MICROGAMES anyScene INITIAL_GAME_STATE ks)) \<le> H"
    using transitions_bounded [OF i, of anyScene ks] by (simp add: hs)
  have g: "recentOf (transitions MICROGAMES anyScene INITIAL_GAME_STATE ks) = drop (length ks - H) ks"
    if "\<forall>k \<in> set ks. k \<noteq> [] \<and> anyScene k"
    using transitions_last_keys [OF i that] by (simp add: i0 hs)
  show ?thesis unfolding Let_def H_def [symmetric] using a b c d e f g by blast
qed

theorem C7_history_bounded_witness:
  "''C'' \<noteq> [] \<and> (\<lambda>k. True) ''C''
   \<and> recentGames (snd (transitionToGame [game ''A'', game ''B'', game ''C'', game ''D''] (\<lambda>k. True) ''C''
        (INITIAL_GAME_STATE\<lparr>recentGames := Some [''A'', ''B'']\<rparr>))) = Some [''B'', ''C'']
   \<and> recentGames (snd (transitionToGame [game ''A'', game ''B'', game ''C'', game ''D''] (\<lambda>k. True) ''B''
        (INITIAL_GAME_STATE\<lparr>recentGames := Some [''A'']\<rparr>))) = Some [''A'', ''B'']
   \<and> recentOf (transitions [game ''A'', game ''B'', game ''C'', game ''D''] (\<lambda>k. True)
        INITIAL_GAME_STATE [''A'', ''B'', ''C'']) = [''B'', ''C'']"
proof -
  have a: "''C'' \<noteq> []" and a': "''B'' \<noteq> []" and b: "(\<lambda>k. True) ''C''" and b': "(\<lambda>k. True) ''B''"
    by simp_all
  have h: "min 3 (length [game ''A'', game ''B'', game ''C'', game ''D''] div 2) = 2"
    by simp
  from C7_history_bounded [of "''C''" "\<lambda>k. True" "[game ''A'', game ''B'', game ''C'', game ''D'']"
      "INITIAL_GAME_STATE\<lparr>recentGames := Some [''A'', ''B'']\<rparr>" "\<lambda>k. True" "[''A'', ''B'', ''C'']", OF a b]
  have c: "recentGames (snd (transitionToGame [game ''A'', game ''B'', game ''C'', game ''D''] (\<lambda>k. True) ''C''
        (INITIAL_GAME_STATE\<lparr>recentGames := Some [''A'', ''B'']\<rparr>))) = Some [''B'', ''C'']"
    and t: "recentOf (transitions [game ''A'', game ''B'', game ''C'', game ''D''] (\<lambda>k. True)
        INITIAL_GAME_STATE [''A'', ''B'', ''C'']) = [''B'', ''C'']"
    unfolding Let_def h by (simp_all add: recentOf_def INITIAL_GAME_STATE_def)
  from C7_history_bounded [of "''B''" "\<lambda>k. True" "[game ''A'', game ''B'', game ''C'', game ''D'']"
      "INITIAL_GAME_STATE\<lparr>recentGames := Some [''A'']\<rparr>" "\<lambda>k. True" "[]", OF a' b']
  have d: "recentGames (snd (transitionToGame [game ''A'', game ''B'', game ''C'', game ''D''] (\<lambda>k. True) ''B''
        (INITIAL_GAME_STATE\<lparr>recentGames := Some [''A'']\<rparr>))) = Some [''A'', ''B'']"
    unfolding Let_def h by (simp add: recentOf_def INITIAL_GAME_STATE_def)
  from a b c d t show ?thesis by blast
qed

end
